theory Spec2Isabelle
  imports Complex_Main "HOL-Library.Monad_Syntax"
begin

text \<open>
  A verification development for the ENCO repository (causal structure discovery without
  acyclicity constraints). Its sources are two notebooks: the derivation notebook
  \<^verbatim>\<open>convergence_guarantees_ENCO.ipynb\<close>, which computes the expected log-likelihood
  contrasts of ENCO's convergence conditions on the chain \<open>X1 \<rightarrow> X2 \<rightarrow> X3\<close> with NumPy, and
  \<^verbatim>\<open>walkthrough.ipynb\<close>, which calls the graph and optimizer packages. The first part
  embeds the NumPy operations and the cells of the derivation notebook; the second part
  models the adjacency sampler, the distribution-fitting phase and the data source from the
  specification, since the packages themselves are not among the sources.
\<close>

section \<open>NumPy arrays\<close>

text \<open>
  The derivation notebook \<^verbatim>\<open>convergence_guarantees_ENCO.ipynb\<close> computes with NumPy
  arrays. An array is its shape and its C-contiguous (row-major) buffer. The float64 entries are
  modelled as real numbers (the type \<open>ndarray\<close>), so a statement about such arrays is about the
  exact value of the expression that the notebook evaluates in floating point. An operation that raises in NumPy
  (\<^verbatim>\<open>ValueError\<close> for shapes that do not broadcast, \<^verbatim>\<open>IndexError\<close> for too many
  indices, \<^verbatim>\<open>AxisError\<close> for an axis out of range) returns \<open>None\<close>.
\<close>

datatype 'a nd = NDArray (shape: "nat list") (data: "'a list")

type_synonym ndarray = "real nd"

text \<open>\<^verbatim>\<open>np.array([...])\<close> of a flat list and of a list of rows.\<close>

definition array1 :: "'a list \<Rightarrow> 'a nd" where
  "array1 xs = NDArray [length xs] xs"

definition array2 :: "'a list list \<Rightarrow> 'a nd" where
  "array2 xss = (case xss of [] \<Rightarrow> NDArray [0] []
                 | xs # _ \<Rightarrow> NDArray [length xss, length xs] (concat xss))"

text \<open>\<^verbatim>\<open>np.ndindex(*shape)\<close>: all multi-indices of a shape, in row-major order.\<close>

fun ndindex :: "nat list \<Rightarrow> nat list list" where
  "ndindex [] = [[]]"
| "ndindex (d # ds) = concat (map (\<lambda>i. map ((#) i) (ndindex ds)) [0..<d])"

text \<open>\<^verbatim>\<open>np.ravel_multi_index(idx, shape)\<close>: the offset of a multi-index in the buffer.\<close>

fun ravel_multi_index :: "nat list \<Rightarrow> nat list \<Rightarrow> nat" where
  "ravel_multi_index (d # ds) (i # is) = i * prod_list ds + ravel_multi_index ds is"
| "ravel_multi_index _ _ = 0"

definition item :: "'a nd \<Rightarrow> nat list \<Rightarrow> 'a" where
  "item a idx = data a ! ravel_multi_index (shape a) idx"

subsection \<open>Broadcasting\<close>

text \<open>
  NumPy's rule: the shape of lower rank is padded with leading ones; two dimensions are
  compatible when they are equal or one of them is 1; a dimension of size 1 is read at
  index 0 whatever the index of the result.
\<close>

definition pad_shape :: "nat \<Rightarrow> nat list \<Rightarrow> nat list" where
  "pad_shape n s = replicate (n - length s) 1 @ s"

definition broadcast_dim :: "nat \<Rightarrow> nat \<Rightarrow> nat option" where
  "broadcast_dim m n =
     (if m = n then Some m else if m = 1 then Some n else if n = 1 then Some m else None)"

fun broadcast_dims :: "nat list \<Rightarrow> nat list \<Rightarrow> nat list option" where
  "broadcast_dims [] [] = Some []"
| "broadcast_dims (m # ms) (n # ns) =
     (case broadcast_dim m n of None \<Rightarrow> None
      | Some d \<Rightarrow> (case broadcast_dims ms ns of None \<Rightarrow> None | Some ds \<Rightarrow> Some (d # ds)))"
| "broadcast_dims _ _ = None"

definition broadcast_shapes :: "nat list \<Rightarrow> nat list \<Rightarrow> nat list option" where
  "broadcast_shapes s t =
     (let n = max (length s) (length t) in broadcast_dims (pad_shape n s) (pad_shape n t))"

definition broadcast_index :: "nat list \<Rightarrow> nat list \<Rightarrow> nat list" where
  "broadcast_index s idx = map2 (\<lambda>d i. if d = 1 then 0 else i) s idx"

text \<open>The entry of \<open>a\<close> that the entry \<open>idx\<close> of a result of shape \<open>s\<close> reads.\<close>

definition broadcast_item :: "'a nd \<Rightarrow> nat list \<Rightarrow> nat list \<Rightarrow> 'a" where
  "broadcast_item a s idx =
     data a ! ravel_multi_index (pad_shape (length s) (shape a))
                (broadcast_index (pad_shape (length s) (shape a)) idx)"

text \<open>\<^verbatim>\<open>np.broadcast_to(a, s)\<close>, for a shape \<open>s\<close> that \<open>broadcast_shapes\<close> returned.\<close>

definition broadcast_to :: "'a nd \<Rightarrow> nat list \<Rightarrow> 'a nd" where
  "broadcast_to a s = NDArray s (map (broadcast_item a s) (ndindex s))"

definition elementwise :: "('a \<Rightarrow> 'b \<Rightarrow> 'c) \<Rightarrow> 'a nd \<Rightarrow> 'b nd \<Rightarrow> 'c nd option" where
  "elementwise f a b =
     (case broadcast_shapes (shape a) (shape b) of
        None \<Rightarrow> None
      | Some s \<Rightarrow> Some (NDArray s (map2 f (data (broadcast_to a s)) (data (broadcast_to b s)))))"

definition np_mul :: "ndarray \<Rightarrow> ndarray \<Rightarrow> ndarray option" where
  "np_mul = elementwise (*)"

definition np_sub :: "ndarray \<Rightarrow> ndarray \<Rightarrow> ndarray option" where
  "np_sub = elementwise (-)"


text \<open>\<^verbatim>\<open>np.log(a)\<close> on strictly positive entries. At 0 and below \<^verbatim>\<open>np.log\<close> returns
  \<^verbatim>\<open>-inf\<close> and \<^verbatim>\<open>nan\<close> (it does not raise), which a real is not; \<open>np_log_ieee\<close> below
  keeps these values.\<close>

definition np_log :: "ndarray \<Rightarrow> ndarray" where
  "np_log a = NDArray (shape a) (map ln (data a))"

definition np_sum :: "ndarray \<Rightarrow> real" where
  "np_sum a = sum_list (data a)"

subsection \<open>Reductions along an axis and indexing with \<^verbatim>\<open>None\<close>\<close>

definition insert_at :: "nat \<Rightarrow> 'a \<Rightarrow> 'a list \<Rightarrow> 'a list" where
  "insert_at k x xs = take k xs @ x # drop k xs"

definition delete_at :: "nat \<Rightarrow> 'a list \<Rightarrow> 'a list" where
  "delete_at k xs = take k xs @ drop (Suc k) xs"

text \<open>\<^verbatim>\<open>a.sum(axis=k)\<close>.\<close>

definition np_sum_axis :: "nat \<Rightarrow> ndarray \<Rightarrow> ndarray option" where
  "np_sum_axis k a =
     (if k < length (shape a)
      then Some (NDArray (delete_at k (shape a))
             (map (\<lambda>idx. sum_list (map (\<lambda>x. item a (insert_at k x idx)) [0..<shape a ! k]))
                  (ndindex (delete_at k (shape a)))))
      else None)"

text \<open>
  Basic indexing \<^verbatim>\<open>a[i1, i2, ...]\<close> where every index is a full slice \<^verbatim>\<open>:\<close> or
  \<^verbatim>\<open>None\<close> (\<^verbatim>\<open>np.newaxis\<close>): the buffer is unchanged and each \<^verbatim>\<open>None\<close> adds an axis of
  length 1; axes not indexed are kept; more slices than axes is an \<^verbatim>\<open>IndexError\<close>.
\<close>

datatype index = Slice | NewAxis

fun index_shape :: "index list \<Rightarrow> nat list \<Rightarrow> nat list option" where
  "index_shape [] s = Some s"
| "index_shape (NewAxis # ixs) s = map_option ((#) 1) (index_shape ixs s)"
| "index_shape (Slice # ixs) [] = None"
| "index_shape (Slice # ixs) (d # s) = map_option ((#) d) (index_shape ixs s)"

definition getitem :: "'a nd \<Rightarrow> index list \<Rightarrow> 'a nd option" where
  "getitem a ixs = map_option (\<lambda>s. NDArray s (data a)) (index_shape ixs (shape a))"



subsection \<open>The special values of float64\<close>












section \<open>The derivation notebook\<close>

text \<open>The conditional distributions of the chain \<open>X1 \<rightarrow> X2 \<rightarrow> X3\<close> and the distribution used
  for interventions.\<close>

definition p_1 :: ndarray where
  "p_1 = array1 [0.3, 0.7]"

definition p_2_1 :: ndarray where
  "p_2_1 = array2 [[0.6, 0.4], [0.4, 0.6]]"

definition p_3_2 :: ndarray where
  "p_3_2 = array2 [[0.2, 0.8], [0.8, 0.2]]"

definition p_interv :: ndarray where
  "p_interv = array1 [0.5, 0.5]"


text \<open>\<^verbatim>\<open>p_2 = (p_1[:,None] * p_2_1).sum(axis=0)\<close>\<close>

definition p_2 :: "ndarray option" where
  "p_2 = do { a \<leftarrow> getitem p_1 [Slice, NewAxis];
              m \<leftarrow> np_mul a p_2_1;
              np_sum_axis 0 m }"



text \<open>
  \<^verbatim>\<open>def expect_diff(joint_prob, prob1, prob2):
    return (joint_prob * (np.log(prob1) - np.log(prob2))).sum()\<close>
\<close>

definition expect_diff :: "ndarray \<Rightarrow> ndarray \<Rightarrow> ndarray \<Rightarrow> real option" where
  "expect_diff joint_prob prob1 prob2 =
     do { d \<leftarrow> np_sub (np_log prob1) (np_log prob2);
          m \<leftarrow> np_mul joint_prob d;
          Some (np_sum m) }"


text \<open>\<^verbatim>\<open>p_interv_1_2 = p_interv[:,None] * p_2_1\<close>\<close>

definition p_interv_1_2 :: "ndarray option" where
  "p_interv_1_2 = do { a \<leftarrow> getitem p_interv [Slice, NewAxis]; np_mul a p_2_1 }"

text \<open>\<^verbatim>\<open>p_interv_1_2_3 = p_interv[:,None,None] * p_2_1[:,:,None] * p_3_2[None,:,:]\<close>\<close>

definition p_interv_1_2_3 :: "ndarray option" where
  "p_interv_1_2_3 = do { a \<leftarrow> getitem p_interv [Slice, NewAxis, NewAxis];
                         b \<leftarrow> getitem p_2_1 [Slice, Slice, NewAxis];
                         c \<leftarrow> getitem p_3_2 [NewAxis, Slice, Slice];
                         ab \<leftarrow> np_mul a b;
                         np_mul ab c }"

text \<open>\<^verbatim>\<open>p_interv_3_1_2 = p_interv[:,None,None] * p_1[None,:,None] * p_2_1[None,:,:]\<close>\<close>

definition p_interv_3_1_2 :: "ndarray option" where
  "p_interv_3_1_2 = do { a \<leftarrow> getitem p_interv [Slice, NewAxis, NewAxis];
                         b \<leftarrow> getitem p_1 [NewAxis, Slice, NewAxis];
                         c \<leftarrow> getitem p_2_1 [NewAxis, Slice, Slice];
                         ab \<leftarrow> np_mul a b;
                         np_mul ab c }"




subsection \<open>The contrasts the notebook prints\<close>

text \<open>Cell 11 (edge \<open>X1 \<rightarrow> X2\<close>, condition 1, part 1):
  \<^verbatim>\<open>expect_diff(p_interv_1_2, p_2_1, p_2[None,:])\<close>\<close>

definition out_11 :: "real option" where
  "out_11 = do { j \<leftarrow> p_interv_1_2;
                 p2 \<leftarrow> p_2;
                 b \<leftarrow> getitem p2 [NewAxis, Slice];
                 expect_diff j p_2_1 b }"


text \<open>Cell 16 (edge \<open>X1 \<rightarrow> X2\<close>, condition 3):
  \<^verbatim>\<open>expect_diff(p_interv_3_1_2, p_2_1[None,:,:], p_2[None,None,:])\<close>\<close>

definition out_16 :: "real option" where
  "out_16 = do { j \<leftarrow> p_interv_3_1_2;
                 a \<leftarrow> getitem p_2_1 [NewAxis, Slice, Slice];
                 p2 \<leftarrow> p_2;
                 b \<leftarrow> getitem p2 [NewAxis, NewAxis, Slice];
                 expect_diff j a b }"





text \<open>Cell 30 (ancestor-descendant pair \<open>X1, X3\<close>, condition 1, part 2):
  \<^verbatim>\<open>expect_diff(p_interv_1_2_3, p_3_2[None,:,:], p_3_2[None,:,:])\<close>\<close>

definition out_30 :: "real option" where
  "out_30 = do { j \<leftarrow> p_interv_1_2_3;
                 a \<leftarrow> getitem p_3_2 [NewAxis, Slice, Slice];
                 b \<leftarrow> getitem p_3_2 [NewAxis, Slice, Slice];
                 expect_diff j a b }"






subsection \<open>The pair \<open>X1, X3\<close> on observational data and under an intervention on the mediator\<close>

text \<open>
  The notebook prints the contrasts of the pair \<open>X1, X3\<close> under an intervention on \<open>X1\<close>
  only (cells 29 and 30). The contrasts below are the same function \<open>expect_diff\<close> on the
  notebook's own distributions: on the observational joint \<open>p_joint\<close> of cell 4, in both
  directions, and on the joint under an intervention on the mediator \<open>X2\<close>,
  \<open>p_interv_2_3_1\<close> of cell 20, transposed to the axes \<open>X2, X1, X3\<close> as cell 21 does.
\<close>





section \<open>The adjacency sampler\<close>

text \<open>
  Modelled from the spec: \<open>sample_hypothesis\<close>, the edge parameters it reads and the Bernoulli
  draws it makes. The sampler's code (the \<^verbatim>\<open>causal_discovery\<close> package) is not among the
  sources; the walkthrough notebook only calls \<^verbatim>\<open>ENCO.discover_graph\<close>. Sections 3 and 4.3
  of the spec: one existence logit per ordered pair, one orientation logit per unordered pair;
  for each unordered pair \<open>{i, j}\<close> draw the orientation
  \<open>o ~ Bernoulli(sigmoid(orientation_logit[i,j]))\<close> choosing \<open>i \<rightarrow> j\<close> or \<open>j \<rightarrow> i\<close>, draw the
  existence \<open>e ~ Bernoulli(sigmoid(existence_logit[chosen direction]))\<close>, and set \<open>A\<close>
  accordingly. The randomness is a tape of uniform draws from [0, 1), read in order; a
  Bernoulli variable with parameter \<open>p\<close> is 1 when the uniform draw is below \<open>p\<close>.
\<close>

record edge_parameters =
  existence_logit :: "nat \<Rightarrow> nat \<Rightarrow> real"
  orientation_logit :: "nat \<Rightarrow> nat \<Rightarrow> real"

definition sigmoid :: "real \<Rightarrow> real" where
  "sigmoid x = 1 / (1 + exp (- x))"

definition bernoulli :: "real \<Rightarrow> real \<Rightarrow> bool" where
  "bernoulli p u = (u < p)"

definition zeros :: "nat \<Rightarrow> nat list list" where
  "zeros N = replicate N (replicate N 0)"

definition set_entry :: "nat list list \<Rightarrow> nat \<Rightarrow> nat \<Rightarrow> nat \<Rightarrow> nat list list" where
  "set_entry A i j v = A[i := (A ! i)[j := v]]"

definition unordered_pairs :: "nat \<Rightarrow> (nat \<times> nat) list" where
  "unordered_pairs N = filter (\<lambda>ij. fst ij < snd ij) (List.product [0..<N] [0..<N])"

text \<open>Modelled from the spec: one iteration of the sampler's loop, for the unordered pair
  \<open>{i, j}\<close> with \<open>i < j\<close> (section 4.3: orientation first, then existence of the chosen
  direction). The sampler itself is missing from the sources.\<close>

definition sample_pair ::
  "edge_parameters \<Rightarrow> (nat \<Rightarrow> real) \<Rightarrow> nat \<times> nat \<Rightarrow> nat list list \<times> nat \<Rightarrow> nat list list \<times> nat" where
  "sample_pair theta tape ij st =
     (case (ij, st) of ((i, j), (A, pos)) \<Rightarrow>
        let orient = bernoulli (sigmoid (orientation_logit theta i j)) (tape pos);
            src = (if orient then i else j);
            dst = (if orient then j else i);
            exist = bernoulli (sigmoid (existence_logit theta src dst)) (tape (Suc pos))
        in (set_entry A src dst (if exist then 1 else 0), pos + 2))"

text \<open>Modelled from the spec: \<open>sample_hypothesis() -> A\<close> (section 4.3), missing from the
  sources: start from the zero matrix (no self-loops, section 3) and draw every unordered pair
  once. It also returns the position reached on the tape.\<close>

definition sample_hypothesis ::
  "nat \<Rightarrow> edge_parameters \<Rightarrow> (nat \<Rightarrow> real) \<Rightarrow> nat \<Rightarrow> nat list list \<times> nat" where
  "sample_hypothesis N theta tape pos =
     fold (sample_pair theta tape) (unordered_pairs N) (zeros N, pos)"

section \<open>The structure optimizer: distribution fitting\<close>

text \<open>
  Modelled from the spec: the optimizer's state and Phase A (distribution fitting) of
  section 4.4; the optimizer's code (the \<^verbatim>\<open>causal_discovery\<close> package) is not among the
  sources. The state is the edge parameters, the parameters of the conditional density
  models and the position on the random tape. One inner step samples a batch of adjacency
  hypotheses (4.3), samples an observational or single-variable interventional batch of data
  (4.1) and updates the density models by one gradient step on the log-likelihood of the data
  under the sampled parent masks. The density model, its gradient step \<open>fit_step\<close> and the
  data source \<open>sample_batch\<close> are opaque, as the spec leaves them.
\<close>

record 'm optimizer_state =
  params :: edge_parameters
  density_model :: 'm
  tape_pos :: nat

text \<open>Modelled from the spec: the batch of adjacency hypotheses that an inner step of
  Phase A samples (section 4.4), missing from the sources.\<close>

fun sample_hypotheses ::
  "nat \<Rightarrow> nat \<Rightarrow> edge_parameters \<Rightarrow> (nat \<Rightarrow> real) \<Rightarrow> nat \<Rightarrow> nat list list list \<times> nat" where
  "sample_hypotheses 0 N theta tape pos = ([], pos)"
| "sample_hypotheses (Suc b) N theta tape pos =
     (case sample_hypothesis N theta tape pos of (A, pos') \<Rightarrow>
        (case sample_hypotheses b N theta tape pos' of (As, pos'') \<Rightarrow> (A # As, pos'')))"

text \<open>Modelled from the spec: one inner step of Phase A (section 4.4), missing from the
  sources.\<close>

definition distribution_fitting_step ::
  "nat \<Rightarrow> nat \<Rightarrow> (nat \<Rightarrow> real) \<Rightarrow> (nat \<Rightarrow> 'b) \<Rightarrow> ('m \<Rightarrow> nat list list list \<Rightarrow> 'b \<Rightarrow> 'm) \<Rightarrow>
     'm optimizer_state \<Rightarrow> 'm optimizer_state" where
  "distribution_fitting_step batch_size N tape sample_batch fit_step st =
     (case sample_hypotheses batch_size N (params st) tape (tape_pos st) of (As, pos) \<Rightarrow>
        st\<lparr>density_model := fit_step (density_model st) As (sample_batch pos),
           tape_pos := Suc pos\<rparr>)"

text \<open>Modelled from the spec: Phase A, the configured number of inner steps (section 4.4),
  missing from the sources.\<close>

definition phase_A ::
  "nat \<Rightarrow> nat \<Rightarrow> nat \<Rightarrow> (nat \<Rightarrow> real) \<Rightarrow> (nat \<Rightarrow> 'b) \<Rightarrow> ('m \<Rightarrow> nat list list list \<Rightarrow> 'b \<Rightarrow> 'm) \<Rightarrow>
     'm optimizer_state \<Rightarrow> 'm optimizer_state" where
  "phase_A inner_steps batch_size N tape sample_batch fit_step st =
     (distribution_fitting_step batch_size N tape sample_batch fit_step ^^ inner_steps) st"

section \<open>The interventional data source\<close>

text \<open>
  Modelled from the spec: the data source's \<open>sample\<close> (\<^verbatim>\<open>CausalDAG.sample\<close>); its code (the
  \<^verbatim>\<open>causal_graphs\<close> package) is not among the sources, the walkthrough notebook only calls it.
  Section 4.1 of the spec: with no interventions the batch is observational; an intervened
  variable is clamped to a fixed value for the whole batch (perfect intervention) or redrawn
  from the replacement distribution (imperfect intervention); every other variable is sampled
  from its true mechanism given the values of its parents, in ancestral order; an intervention
  on a variable that the graph does not define raises a configuration error. A categorical
  distribution is modelled as its sampler, from a uniform draw to a category, and each
  variable has its own noise, one uniform draw per example of the batch.
\<close>

type_synonym dist = "real \<Rightarrow> nat"

record variable =
  name :: string
  parents :: "nat list"
  mechanism :: "nat list \<Rightarrow> dist"

datatype intervention = Perfect nat | Imperfect dist

datatype sample_error = ConfigurationError

type_synonym batch = "(string \<times> nat list) list"

definition parent_values :: "batch \<Rightarrow> variable \<Rightarrow> nat \<Rightarrow> nat list" where
  "parent_values cols v k = map (\<lambda>p. snd (cols ! p) ! k) (parents v)"

text \<open>Modelled from the spec: the value of one variable in one example (section 4.1):
  clamped, redrawn from the replacement distribution, or drawn from the true mechanism.
  Missing from the sources.\<close>

definition draw :: "(string \<times> intervention) list \<Rightarrow> variable \<Rightarrow> nat list \<Rightarrow> real \<Rightarrow> nat" where
  "draw iv v pvals u =
     (case map_of iv (name v) of
        None \<Rightarrow> mechanism v pvals u
      | Some (Perfect c) \<Rightarrow> c
      | Some (Imperfect q) \<Rightarrow> q u)"

text \<open>Modelled from the spec: the column of one variable, appended to the columns of the
  variables before it in the ancestral order (section 4.1). Missing from the sources.\<close>

definition sample_variable ::
  "(string \<times> intervention) list \<Rightarrow> nat \<Rightarrow> (string \<Rightarrow> nat \<Rightarrow> real) \<Rightarrow> variable \<Rightarrow> batch \<Rightarrow> batch" where
  "sample_variable iv n noise v cols =
     cols @ [(name v, map (\<lambda>k. draw iv v (parent_values cols v k) (noise (name v) k)) [0..<n])]"

text \<open>Modelled from the spec: observational samples, ancestral sampling from the unmodified
  joint distribution (section 4.1). Missing from the sources.\<close>

definition sample_observational ::
  "variable list \<Rightarrow> nat \<Rightarrow> (string \<Rightarrow> nat \<Rightarrow> real) \<Rightarrow> batch" where
  "sample_observational g n noise =
     fold (\<lambda>v cols. cols @ [(name v,
              map (\<lambda>k. mechanism v (parent_values cols v k) (noise (name v) k)) [0..<n])]) g []"

text \<open>Modelled from the spec: \<open>sample(n, interventions=None)\<close> (section 4.1), that is
  \<^verbatim>\<open>CausalDAG.sample\<close>, missing from the sources. An absent argument is the empty mapping.\<close>

definition sample ::
  "variable list \<Rightarrow> nat \<Rightarrow> (string \<times> intervention) list option \<Rightarrow> (string \<Rightarrow> nat \<Rightarrow> real) \<Rightarrow>
     sample_error + batch" where
  "sample g n interventions noise =
     (let iv = (case interventions of None \<Rightarrow> [] | Some iv \<Rightarrow> iv)
      in if list_all (\<lambda>x. fst x \<in> set (map name g)) iv
         then Inr (fold (sample_variable iv n noise) g [])
         else Inl ConfigurationError)"

section \<open>Evaluating the notebook\<close>

lemmas np_eval = array1_def array2_def getitem_def np_mul_def np_sub_def np_log_def np_sum_def
  elementwise_def broadcast_shapes_def pad_shape_def broadcast_dim_def broadcast_to_def
  broadcast_item_def broadcast_index_def np_sum_axis_def delete_at_def insert_at_def item_def upt_rec

lemma p_2_val: "p_2 = Some (NDArray [2] [23/50, 27/50])"
  by (simp add: p_2_def p_1_def p_2_1_def np_eval)



lemma p_interv_1_2_val: "p_interv_1_2 = Some (NDArray [2, 2] [3/10, 1/5, 1/5, 3/10])"
  by (simp add: p_interv_1_2_def p_interv_def p_2_1_def np_eval)


lemma p_interv_1_2_3_val:
  "p_interv_1_2_3 = Some (NDArray [2, 2, 2] [3/50, 6/25, 4/25, 1/25, 1/25, 4/25, 6/25, 3/50])"
  by (simp add: p_interv_1_2_3_def p_interv_def p_2_1_def p_3_2_def np_eval)

lemma p_interv_3_1_2_val:
  "p_interv_3_1_2 =
     Some (NDArray [2, 2, 2] [9/100, 3/50, 7/50, 21/100, 9/100, 3/50, 7/50, 21/100])"
  by (simp add: p_interv_3_1_2_def p_interv_def p_1_def p_2_1_def np_eval)



text \<open>Each contrast is a rational combination of logarithms of rationals.\<close>

lemma out_11_val:
  "out_11 = Some ((6 * ln (3/5) + 4 * ln (2/5) - 5 * ln (23/50) - 5 * ln (27/50)) / 10)"
  apply (simp add: out_11_def p_interv_1_2_val p_2_val expect_diff_def p_2_1_def np_eval)
  apply (simp add: field_simps)
  done


lemma out_16_val:
  "out_16 = Some ((30 * ln (3/5) + 20 * ln (2/5) - 23 * ln (23/50) - 27 * ln (27/50)) / 50)"
  apply (simp add: out_16_def p_interv_3_1_2_val p_2_val expect_diff_def p_2_1_def np_eval)
  apply (simp add: field_simps)
  done





lemma out_30_val: "out_30 = Some 0"
  by (simp add: out_30_def p_interv_1_2_3_val expect_diff_def p_3_2_def np_eval)









section \<open>Bounds on logarithms\<close>

text \<open>The exponential between its Taylor polynomial and the polynomial plus a bound on the
  Lagrange remainder.\<close>

lemma exp_taylor_lower:
  fixes x :: real
  assumes "0 \<le> x"
  shows "(\<Sum>m<n. x ^ m / fact m) \<le> exp x"
proof -
  obtain t where t: "exp x = (\<Sum>m<n. x ^ m / fact m) + exp t / fact n * x ^ n"
    using Maclaurin_exp_le [of x n] by blast
  have "0 \<le> exp t / fact n * x ^ n"
    using assms by simp
  with t show ?thesis by linarith
qed

lemma exp_two_le_nine: "exp (2::real) \<le> 9"
proof -
  have "exp (2::real) = exp 1 * exp 1"
    by (simp add: exp_add [symmetric])
  also have "\<dots> \<le> 3 * 3"
    by (intro mult_mono exp_le) simp_all
  finally show ?thesis by simp
qed

lemma exp_taylor_upper:
  fixes x :: real
  assumes "0 \<le> x" "x \<le> 2"
  shows "exp x \<le> (\<Sum>m<n. x ^ m / fact m) + 9 * x ^ n / fact n"
proof -
  obtain t where t: "\<bar>t\<bar> \<le> \<bar>x\<bar>"
      "exp x = (\<Sum>m<n. x ^ m / fact m) + exp t / fact n * x ^ n"
    using Maclaurin_exp_le [of x n] by blast
  have "t \<le> 2" using t(1) assms by linarith
  then have "exp t \<le> exp 2" by simp
  then have e9: "exp t \<le> 9" using exp_two_le_nine by linarith
  have "0 \<le> x ^ n / fact n" using assms by simp
  then have "exp t * (x ^ n / fact n) \<le> 9 * (x ^ n / fact n)"
    using e9 by (rule mult_right_mono [rotated])
  then show ?thesis using t(2) by (simp add: field_simps)
qed

lemma ln_gt_of_exp_lt:
  fixes x r :: real
  assumes "0 < r" "exp x < r"
  shows "x < ln r"
proof -
  have "ln (exp x) < ln r"
    using assms by (subst ln_less_cancel_iff) simp_all
  then show ?thesis by simp
qed

lemma ln_lt_of_lt_exp:
  fixes x r :: real
  assumes "0 < r" "r < exp x"
  shows "ln r < x"
proof -
  have "ln r < ln (exp x)"
    using assms by (subst ln_less_cancel_iff) simp_all
  then show ?thesis by simp
qed

lemma between_tolerance:
  fixes v lo hi c e :: real
  assumes "lo < v" "v < hi" "0 \<le> lo" "c - e \<le> lo" "hi \<le> c + e"
  shows "0 < v \<and> \<bar>v - c\<bar> < e"
  using assms by linarith

lemma ln_combine:
  fixes a b c d :: real
  assumes "0 < a" "0 < b" "0 < c" "0 < d"
  shows "ln (a ^ p * b ^ q / (c ^ r * d ^ s)) =
         real p * ln a + real q * ln b - real r * ln c - real s * ln d"
  using assms by (simp add: ln_mult ln_div ln_realpow)

text \<open>The contrasts of cells 11 and 15, 16, 19 (and 22, 23) and 29, to six decimals.\<close>

lemma contrast_11_bounds:
  fixes v :: real
  defines "v \<equiv> (6 * ln (3/5) + 4 * ln (2/5) - 5 * ln (23/50) - 5 * ln (27/50)) / 10"
  shows "0.023345 < v" and "v < 0.023346"
proof -
  define r :: real where "r = (3/5) ^ 6 * (2/5) ^ 4 / ((23/50) ^ 5 * (27/50) ^ 5)"
  have ln_r: "10 * v = ln r"
    unfolding v_def r_def by (subst ln_combine) simp_all
  have r_pos: "0 < r"
    by (simp add: r_def)
  let ?l = "0.23345 :: real" and ?u = "0.23346 :: real"
  have "exp ?l \<le> (\<Sum>m<6. ?l ^ m / fact m) + 9 * ?l ^ 6 / fact 6"
    by (rule exp_taylor_upper) simp_all
  also have "\<dots> < r"
    by (simp add: r_def eval_nat_numeral)
  finally have "?l < ln r"
    by (rule ln_gt_of_exp_lt [OF r_pos])
  then have "?l < 10 * v"
    by (simp only: ln_r)
  then show "0.023345 < v"
    by simp
  have "r < (\<Sum>m<6. ?u ^ m / fact m)"
    by (simp add: r_def eval_nat_numeral)
  also have "\<dots> \<le> exp ?u"
    by (rule exp_taylor_lower) simp
  finally have "ln r < ?u"
    by (rule ln_lt_of_lt_exp [OF r_pos])
  then have "10 * v < ?u"
    by (simp only: ln_r)
  then show "v < 0.023346"
    by simp
qed

lemma contrast_16_bounds:
  fixes v :: real
  defines "v \<equiv> (30 * ln (3/5) + 20 * ln (2/5) - 23 * ln (23/50) - 27 * ln (27/50)) / 50"
  shows "0.016932 < v" and "v < 0.016933"
proof -
  define r :: real where "r = (3/5) ^ 30 * (2/5) ^ 20 / ((23/50) ^ 23 * (27/50) ^ 27)"
  have ln_r: "50 * v = ln r"
    unfolding v_def r_def by (subst ln_combine) simp_all
  have r_pos: "0 < r"
    by (simp add: r_def)
  let ?l = "0.8466 :: real" and ?u = "0.84665 :: real"
  have "exp ?l \<le> (\<Sum>m<9. ?l ^ m / fact m) + 9 * ?l ^ 9 / fact 9"
    by (rule exp_taylor_upper) simp_all
  also have "\<dots> < r"
    by (simp add: r_def eval_nat_numeral)
  finally have "?l < ln r"
    by (rule ln_gt_of_exp_lt [OF r_pos])
  then have "?l < 50 * v"
    by (simp only: ln_r)
  then show "0.016932 < v"
    by simp
  have "r < (\<Sum>m<9. ?u ^ m / fact m)"
    by (simp add: r_def eval_nat_numeral)
  also have "\<dots> \<le> exp ?u"
    by (rule exp_taylor_lower) simp
  finally have "ln r < ?u"
    by (rule ln_lt_of_lt_exp [OF r_pos])
  then have "50 * v < ?u"
    by (simp only: ln_r)
  then show "v < 0.016933"
    by simp
qed










section \<open>Indices, broadcasting and axes\<close>

subsection \<open>Multi-indices and offsets\<close>

lemma set_ndindex: "set (ndindex s) = {idx. list_all2 (<) idx s}"
proof (induction s)
  case Nil
  then show ?case by auto
next
  case (Cons d ds)
  show ?case
  proof (rule set_eqI)
    fix idx
    show "idx \<in> set (ndindex (d # ds)) \<longleftrightarrow> idx \<in> {idx. list_all2 (<) idx (d # ds)}"
      using Cons.IH by (cases idx) (auto simp: list_all2_Cons2)
  qed
qed

lemma length_ndindex: "length (ndindex s) = prod_list s"
proof (induction s)
  case Nil
  then show ?case by simp
next
  case (Cons d ds)
  have "length (ndindex (d # ds)) = sum_list (map (\<lambda>i. length (ndindex ds)) [0..<d])"
    by (simp add: length_concat comp_def)
  also have "\<dots> = d * prod_list ds"
    by (simp add: Cons.IH sum_list_triv)
  finally show ?case by simp
qed

lemma ravel_lt:
  "list_all2 (<) idx s \<Longrightarrow> ravel_multi_index s idx < prod_list s"
proof (induction s arbitrary: idx)
  case Nil
  then show ?case by simp
next
  case (Cons d ds)
  then obtain i rest where idx: "idx = i # rest" "i < d" "list_all2 (<) rest ds"
    by (auto simp: list_all2_Cons2)
  have r: "ravel_multi_index ds rest < prod_list ds"
    using Cons.IH idx(3) by simp
  have "i * prod_list ds + ravel_multi_index ds rest < i * prod_list ds + prod_list ds"
    using r by simp
  also have "\<dots> = Suc i * prod_list ds" by simp
  also have "\<dots> \<le> d * prod_list ds"
    using idx(2) by (intro mult_le_mono1) simp
  finally show ?case by (simp add: idx(1))
qed




lemma broadcast_dims_length:
  "broadcast_dims s t = Some u \<Longrightarrow> length s = length t \<and> length u = length t"
  by (induction s t arbitrary: u rule: broadcast_dims.induct)
     (auto split: option.splits)

lemma broadcast_dim_commute: "broadcast_dim m n = broadcast_dim n m"
  by (auto simp: broadcast_dim_def)

lemma broadcast_dims_commute: "broadcast_dims s t = broadcast_dims t s"
proof (induction s arbitrary: t)
  case Nil
  show ?case by (cases t) simp_all
next
  case (Cons m ms)
  note IH = Cons.IH
  show ?case
  proof (cases t)
    case Nil
    then show ?thesis by simp
  next
    case (Cons n ns)
    then show ?thesis
      using IH [of ns] by (simp add: broadcast_dim_commute [of m n] split: option.splits)
  qed
qed

lemma broadcast_shapes_commute: "broadcast_shapes s t = broadcast_shapes t s"
  by (simp add: broadcast_shapes_def Let_def max.commute broadcast_dims_commute)

lemma broadcast_dims_same: "broadcast_dims s s = Some s"
  by (induction s) (simp_all add: broadcast_dim_def)

lemma pad_shape_same [simp]: "pad_shape (length s) s = s"
  by (simp add: pad_shape_def)

lemma length_pad_shape: "length s \<le> n \<Longrightarrow> length (pad_shape n s) = n"
  by (simp add: pad_shape_def)

lemma prod_list_pad_shape [simp]: "prod_list (pad_shape n s) = prod_list s"
  by (simp add: pad_shape_def)

lemma broadcast_shapes_same: "broadcast_shapes s s = Some s"
  by (simp add: broadcast_shapes_def broadcast_dims_same)

lemma broadcast_shapes_length:
  assumes "broadcast_shapes s t = Some u"
  shows "length u = max (length s) (length t)"
proof -
  have "length u = length (pad_shape (max (length s) (length t)) t)"
    using assms broadcast_dims_length by (fastforce simp: broadcast_shapes_def Let_def)
  then show ?thesis by (simp add: length_pad_shape)
qed

text \<open>An index of the result, read in an operand, is an index of the operand.\<close>

lemma broadcast_index_valid:
  "broadcast_dims s t = Some u \<Longrightarrow> list_all2 (<) idx u \<Longrightarrow>
     list_all2 (<) (broadcast_index s idx) s \<and> list_all2 (<) (broadcast_index t idx) t"
proof (induction s t arbitrary: u idx rule: broadcast_dims.induct)
  case 1
  then show ?case by (simp add: broadcast_index_def)
next
  case (2 m ms n ns)
  from "2.prems"(1) obtain d ds where u: "u = d # ds" "broadcast_dim m n = Some d"
      "broadcast_dims ms ns = Some ds"
    by (auto split: option.splits)
  from "2.prems"(2) u(1) obtain i rest where idx: "idx = i # rest" "i < d" "list_all2 (<) rest ds"
    by (auto simp: list_all2_Cons2)
  have IH: "list_all2 (<) (broadcast_index ms rest) ms \<and> list_all2 (<) (broadcast_index ns rest) ns"
    using "2.IH" u(2,3) idx(3) by simp
  have "(if m = 1 then 0 else i) < m" "(if n = 1 then 0 else i) < n"
    using u(2) idx(2) by (auto simp: broadcast_dim_def split: if_splits)
  with IH show ?case
    by (simp add: idx(1) broadcast_index_def)
qed simp_all

subsection \<open>Elementwise operations\<close>

lemma map2_same: "map2 f (map g xs) (map h xs) = map (\<lambda>x. f (g x) (h x)) xs"
  by (induction xs) simp_all

lemma elementwise_Some:
  assumes "broadcast_shapes (shape a) (shape b) = Some s"
  shows "elementwise f a b =
           Some (NDArray s (map (\<lambda>idx. f (broadcast_item a s idx) (broadcast_item b s idx))
                               (ndindex s)))"
  using assms by (simp add: elementwise_def broadcast_to_def map2_same)


lemma broadcast_offset_lt:
  assumes "broadcast_shapes s1 s2 = Some s" "idx \<in> set (ndindex s)"
  shows "ravel_multi_index (pad_shape (length s) s1)
           (broadcast_index (pad_shape (length s) s1) idx) < prod_list s1"
    and "ravel_multi_index (pad_shape (length s) s2)
           (broadcast_index (pad_shape (length s) s2) idx) < prod_list s2"
proof -
  have len: "length s = max (length s1) (length s2)"
    using assms(1) by (rule broadcast_shapes_length)
  have dims: "broadcast_dims (pad_shape (length s) s1) (pad_shape (length s) s2) = Some s"
    using assms(1) by (simp add: broadcast_shapes_def Let_def len)
  have valid: "list_all2 (<) idx s"
    using assms(2) by (simp add: set_ndindex)
  note v = broadcast_index_valid [OF dims valid]
  show "ravel_multi_index (pad_shape (length s) s1)
           (broadcast_index (pad_shape (length s) s1) idx) < prod_list s1"
    using ravel_lt [OF conjunct1 [OF v]] by simp
  show "ravel_multi_index (pad_shape (length s) s2)
           (broadcast_index (pad_shape (length s) s2) idx) < prod_list s2"
    using ravel_lt [OF conjunct2 [OF v]] by simp
qed

text \<open>Reading a broadcast entry of an array whose buffer is a map over a list.\<close>

lemma broadcast_item_map:
  assumes "broadcast_shapes s1 s2 = Some s" "idx \<in> set (ndindex s)" "length xs = prod_list s2"
  shows "broadcast_item (NDArray s2 (map h xs)) s idx =
           h (xs ! ravel_multi_index (pad_shape (length s) s2)
                     (broadcast_index (pad_shape (length s) s2) idx))"
  using broadcast_offset_lt(2) [OF assms(1,2)] assms(3)
  by (simp add: broadcast_item_def)

lemma sum_list_map_uminus:
  fixes f :: "'a \<Rightarrow> real"
  shows "sum_list (map (\<lambda>x. - f x) xs) = - sum_list (map f xs)"
  by (induction xs) simp_all

text \<open>Shapes that broadcast with the broadcast of two shapes broadcast with each of them.\<close>

lemma broadcast_dims_prefix_ones:
  "broadcast_dims (replicate k (Suc 0) @ xs) (replicate k (Suc 0) @ ys) =
     map_option ((@) (replicate k (Suc 0))) (broadcast_dims xs ys)"
proof (induction k)
  case 0
  show ?case by (cases "broadcast_dims xs ys") simp_all
next
  case (Suc k)
  then show ?case
    by (cases "broadcast_dims xs ys") (simp_all add: broadcast_dim_def)
qed

lemma pad_shape_pad:
  assumes "length s \<le> n1" "n1 \<le> n2"
  shows "pad_shape n2 s = replicate (n2 - n1) (Suc 0) @ pad_shape n1 s"
proof -
  have "n2 - length s = (n2 - n1) + (n1 - length s)"
    using assms by simp
  then show ?thesis
    by (simp add: pad_shape_def replicate_add [symmetric])
qed

lemma broadcast_dims_with_operand:
  "broadcast_dims xs ys = Some u \<Longrightarrow> broadcast_dims zs u = Some t \<Longrightarrow>
     \<exists>t'. broadcast_dims zs xs = Some t'"
proof (induction xs ys arbitrary: u zs t rule: broadcast_dims.induct)
  case 1
  then show ?case by simp
next
  case (2 m ms n ns)
  from "2.prems"(1) obtain d ds where u: "u = d # ds" "broadcast_dim m n = Some d"
      "broadcast_dims ms ns = Some ds"
    by (auto split: option.splits)
  from "2.prems"(2) u(1) obtain z zs' e es where z: "zs = z # zs'" "broadcast_dim z d = Some e"
      "broadcast_dims zs' ds = Some es"
    by (cases zs) (auto split: option.splits)
  obtain t' where "broadcast_dims zs' ms = Some t'"
    using "2.IH" u(2,3) z(3) by blast
  moreover obtain e' where "broadcast_dim z m = Some e'"
    using u(2) z(2) by (auto simp: broadcast_dim_def split: if_splits)
  ultimately show ?case
    by (simp add: z(1))
qed simp_all

lemma broadcast_shapes_with_operand:
  assumes "broadcast_shapes sa sb = Some s" "broadcast_shapes sj s = Some t"
  shows "\<exists>t'. broadcast_shapes sj sa = Some t'"
proof -
  define n1 where "n1 = max (length sa) (length sb)"
  define n2 where "n2 = max (length sj) (length s)"
  define n3 where "n3 = max (length sj) (length sa)"
  have len_s: "length s = n1"
    using broadcast_shapes_length [OF assms(1)] by (simp add: n1_def)
  have le: "n1 \<le> n2" "n3 \<le> n2" "length sa \<le> n1" "length sb \<le> n1" "length sj \<le> n3"
      "length sa \<le> n3"
    by (simp_all add: n1_def n2_def n3_def len_s)
  have "broadcast_dims (pad_shape n1 sa) (pad_shape n1 sb) = Some s"
    using assms(1) by (simp add: broadcast_shapes_def Let_def n1_def)
  then have 1: "broadcast_dims (pad_shape n2 sa) (pad_shape n2 sb) = Some (pad_shape n2 s)"
    using le by (simp add: pad_shape_pad [of _ n1 n2] broadcast_dims_prefix_ones
        pad_shape_def [of n2 s] len_s)
  have 2: "broadcast_dims (pad_shape n2 sj) (pad_shape n2 s) = Some t"
    using assms(2) by (simp add: broadcast_shapes_def Let_def n2_def)
  obtain t' where "broadcast_dims (pad_shape n2 sj) (pad_shape n2 sa) = Some t'"
    using broadcast_dims_with_operand [OF 1 2] by blast
  then obtain t'' where "broadcast_dims (pad_shape n3 sj) (pad_shape n3 sa) = Some t''"
    using le by (auto simp: pad_shape_pad [of _ n3 n2] broadcast_dims_prefix_ones)
  then show ?thesis
    by (simp add: broadcast_shapes_def Let_def n3_def)
qed

lemma shape_np_log [simp]: "shape (np_log a) = shape a"
  by (simp add: np_log_def)

lemma expect_diff_sum:
  assumes "broadcast_shapes (shape a) (shape b) = Some s" "broadcast_shapes (shape j) s = Some t"
  shows "expect_diff j a b =
     Some (sum_list (map (\<lambda>idx. broadcast_item j t idx *
        (broadcast_item (np_log a) s
            (ndindex s ! ravel_multi_index (pad_shape (length t) s)
                            (broadcast_index (pad_shape (length t) s) idx)) -
         broadcast_item (np_log b) s
            (ndindex s ! ravel_multi_index (pad_shape (length t) s)
                            (broadcast_index (pad_shape (length t) s) idx))))
        (ndindex t)))"
proof -
  let ?d = "NDArray s (map (\<lambda>idx. broadcast_item (np_log a) s idx - broadcast_item (np_log b) s idx)
                         (ndindex s))"
  have sub: "np_sub (np_log a) (np_log b) = Some ?d"
    using assms(1) by (simp add: np_sub_def elementwise_Some)
  have mul: "np_mul j ?d =
      Some (NDArray t (map (\<lambda>idx. broadcast_item j t idx * broadcast_item ?d t idx) (ndindex t)))"
    using assms(2) by (simp add: np_mul_def elementwise_Some)
  have data_eq: "map (\<lambda>idx. broadcast_item j t idx * broadcast_item ?d t idx) (ndindex t) =
        map (\<lambda>idx. broadcast_item j t idx *
        (broadcast_item (np_log a) s
            (ndindex s ! ravel_multi_index (pad_shape (length t) s)
                            (broadcast_index (pad_shape (length t) s) idx)) -
         broadcast_item (np_log b) s
            (ndindex s ! ravel_multi_index (pad_shape (length t) s)
                            (broadcast_index (pad_shape (length t) s) idx))))
        (ndindex t)"
    by (rule map_cong [OF refl])
       (simp add: broadcast_item_map [OF assms(2)] length_ndindex)
  show ?thesis
    by (simp add: expect_diff_def sub mul np_sum_def data_eq)
qed

subsection \<open>Inserting and deleting an axis\<close>

lemma insert_at_0 [simp]: "insert_at 0 x xs = x # xs"
  by (simp add: insert_at_def)

lemma insert_at_Suc [simp]: "insert_at (Suc k) x (y # ys) = y # insert_at k x ys"
  by (simp add: insert_at_def)

lemma delete_at_0 [simp]: "delete_at 0 (x # xs) = xs"
  by (simp add: delete_at_def)

lemma delete_at_Suc [simp]: "delete_at (Suc k) (y # ys) = y # delete_at k ys"
  by (simp add: delete_at_def)

lemma length_insert_at [simp]: "length (insert_at k x xs) = Suc (length xs)"
  by (simp add: insert_at_def)














subsection \<open>Summing an axis out of a broadcast product\<close>









subsection \<open>The special values and the finite case\<close>











section \<open>The claims about the derivation notebook\<close>

text \<open>
  C1: for the chain with p(X1) = [0.3, 0.7], p(X2|X1) = [[0.6, 0.4], [0.4, 0.6]],
  p(X3|X2) = [[0.2, 0.8], [0.8, 0.2]] and the intervention distribution [0.5, 0.5], the
  expected log-likelihood contrast of the edge X1 -> X2 under an intervention on X1,
  \<^verbatim>\<open>expect_diff(p_interv_1_2, p_2_1, p_2[None,:])\<close>, is the sum over (x1, x2) of
  p(do(X1) = x1, X2 = x2) * (log p(x2 | x1) - log p(x2)), it is strictly positive, and it
  lies within 1e-6 of the reference value 0.023345797452150232.
\<close>

theorem C1_edge_1_2_contrast_positive:
  "\<exists>j p2 v. p_interv_1_2 = Some j \<and> p_2 = Some p2 \<and> out_11 = Some v \<and>
     v = (\<Sum>x1<2. \<Sum>x2<2. item j [x1, x2] * (ln (item p_2_1 [x1, x2]) - ln (item p2 [x2]))) \<and>
     0 < v \<and> \<bar>v - 0.023345797452150232\<bar> < 1 / 10 ^ 6"
proof -
  let ?v = "(6 * ln (3/5) + 4 * ln (2/5) - 5 * ln (23/50) - 5 * ln (27/50)) / 10 :: real"
  have sum: "?v = (\<Sum>x1<2. \<Sum>x2<2. item (NDArray [2, 2] [3/10, 1/5, 1/5, 3/10]) [x1, x2] *
      (ln (item p_2_1 [x1, x2]) - ln (item (NDArray [2] [23/50, 27/50]) [x2])))"
    by (simp add: item_def p_2_1_def array2_def eval_nat_numeral field_simps)
  have "0 < ?v \<and> \<bar>?v - 0.023345797452150232\<bar> < 1 / 10 ^ 6"
    by (rule between_tolerance [OF contrast_11_bounds]) simp_all
  with sum show ?thesis
    using p_interv_1_2_val p_2_val out_11_val by blast
qed

text \<open>
  C2: the contrast of the edge X1 -> X2 computed from interventional data on the third
  variable X3, \<^verbatim>\<open>expect_diff(p_interv_3_1_2, p_2_1[None,:,:], p_2[None,None,:])\<close>, is the
  expectation under p(do(X3), X1, X2) of log p(X2 | X1) - log p(X2); it is positive and lies
  within 1e-6 of the reference value 0.016932091449143066.
\<close>

theorem C2_edge_1_2_contrast_under_do_3_positive:
  "\<exists>j p2 v. p_interv_3_1_2 = Some j \<and> p_2 = Some p2 \<and> out_16 = Some v \<and>
     v = (\<Sum>x3<2. \<Sum>x1<2. \<Sum>x2<2.
            item j [x3, x1, x2] * (ln (item p_2_1 [x1, x2]) - ln (item p2 [x2]))) \<and>
     0 < v \<and> \<bar>v - 0.016932091449143066\<bar> < 1 / 10 ^ 6"
proof -
  let ?v = "(30 * ln (3/5) + 20 * ln (2/5) - 23 * ln (23/50) - 27 * ln (27/50)) / 50 :: real"
  have sum: "?v = (\<Sum>x3<2. \<Sum>x1<2. \<Sum>x2<2.
      item (NDArray [2, 2, 2] [9/100, 3/50, 7/50, 21/100, 9/100, 3/50, 7/50, 21/100]) [x3, x1, x2] *
      (ln (item p_2_1 [x1, x2]) - ln (item (NDArray [2] [23/50, 27/50]) [x2])))"
    by (simp add: item_def p_2_1_def array2_def eval_nat_numeral field_simps)
  have "0 < ?v \<and> \<bar>?v - 0.016932091449143066\<bar> < 1 / 10 ^ 6"
    by (rule between_tolerance [OF contrast_16_bounds]) simp_all
  with sum show ?thesis
    using p_interv_3_1_2_val p_2_val out_16_val by blast
qed


text \<open>
  C9: for every weight array j with non-negative entries and every pair a, b of arrays with
  strictly positive entries whose shapes broadcast together with the shape of j,
  \<^verbatim>\<open>expect_diff(j, a, a)\<close> is 0 and \<^verbatim>\<open>expect_diff(j, a, b)\<close> is
  \<^verbatim>\<open>-expect_diff(j, b, a)\<close>; in particular none of the three calls raises. The notebook's
  instance of the first identity, \<^verbatim>\<open>expect_diff(p_interv_1_2_3, p_3_2[None,:,:], p_3_2[None,:,:])\<close>,
  is exactly 0.
\<close>

theorem C9_expect_diff_zero_and_antisymmetric:
  assumes "\<forall>x\<in>set (data j). 0 \<le> x"
      and "\<forall>x\<in>set (data a). 0 < x" and "\<forall>x\<in>set (data b). 0 < x"
      and ab: "broadcast_shapes (shape a) (shape b) = Some s"
      and js: "broadcast_shapes (shape j) s = Some t"
  shows "expect_diff j a a = Some 0 \<and>
         (\<exists>r. expect_diff j a b = Some r \<and> expect_diff j b a = Some (- r)) \<and>
         out_30 = Some 0"
proof -
  obtain t' where ja: "broadcast_shapes (shape j) (shape a) = Some t'"
    using broadcast_shapes_with_operand [OF ab js] by blast
  have "expect_diff j a a = Some 0"
    by (simp add: expect_diff_sum [OF broadcast_shapes_same ja])
  moreover have ba: "broadcast_shapes (shape b) (shape a) = Some s"
    using ab by (simp add: broadcast_shapes_commute)
  have "expect_diff j b a = Some (- the (expect_diff j a b))"
    by (simp add: expect_diff_sum [OF ab js] expect_diff_sum [OF ba js]
        sum_list_map_uminus [symmetric] algebra_simps)
  ultimately show ?thesis
    by (simp add: expect_diff_sum [OF ab js] out_30_val)
qed

theorem C9_expect_diff_zero_and_antisymmetric_witness:
  "expect_diff (NDArray [2, 2] [3/10, 1/5, 1/5, 3/10]) p_2_1 p_2_1 = Some 0 \<and>
   (\<exists>r. expect_diff (NDArray [2, 2] [3/10, 1/5, 1/5, 3/10]) p_2_1 (NDArray [1, 2] [23/50, 27/50])
          = Some r \<and>
        expect_diff (NDArray [2, 2] [3/10, 1/5, 1/5, 3/10]) (NDArray [1, 2] [23/50, 27/50]) p_2_1
          = Some (- r)) \<and>
   out_30 = Some 0"
  by (rule C9_expect_diff_zero_and_antisymmetric [where s = "[2, 2]" and t = "[2, 2]"])
     (simp_all add: p_2_1_def array2_def broadcast_shapes_def pad_shape_def broadcast_dim_def)




section \<open>The claims about the components modelled from the spec\<close>

subsection \<open>The adjacency sampler\<close>

lemma set_entry_nth:
  "i < length A \<Longrightarrow> j < length (A ! i) \<Longrightarrow>
     set_entry A i j v ! a ! b = (if a = i \<and> b = j then v else A ! a ! b)"
  by (cases "a = i") (simp_all add: set_entry_def nth_list_update)

lemma length_set_entry [simp]: "length (set_entry A i j v) = length A"
  by (simp add: set_entry_def)

lemma length_set_entry_row [simp]: "length (set_entry A i j v ! a) = length (A ! a)"
  by (cases "i < length A"; cases "a = i") (simp_all add: set_entry_def list_update_beyond)

lemma set_unordered_pairs: "set (unordered_pairs N) = {(i, j). i < j \<and> j < N}"
  by (auto simp: unordered_pairs_def)

lemma distinct_unordered_pairs: "distinct (unordered_pairs N)"
  by (simp add: unordered_pairs_def distinct_product)

text \<open>The invariant of the loop over the pairs: \<open>A\<close> is an \<open>N \<times> N\<close> matrix of zeros and ones
  with at most one direction set for every pair, and zero at every pair still to be drawn.\<close>

lemma fold_sample_pair_invariant:
  assumes "length A = N" "\<forall>i<N. length (A ! i) = N"
    and "\<forall>i<N. \<forall>j<N. A ! i ! j \<le> 1"
    and "\<forall>i<N. \<forall>j<N. A ! i ! j = 0 \<or> A ! j ! i = 0"
    and "\<forall>(i, j)\<in>set ps. i < j \<and> j < N \<and> A ! i ! j = 0 \<and> A ! j ! i = 0"
    and "distinct ps"
  shows "length (fst (fold (sample_pair theta tape) ps (A, pos))) = N \<and>
         (\<forall>i<N. length (fst (fold (sample_pair theta tape) ps (A, pos)) ! i) = N) \<and>
         (\<forall>i<N. \<forall>j<N. fst (fold (sample_pair theta tape) ps (A, pos)) ! i ! j \<le> 1) \<and>
         (\<forall>i<N. \<forall>j<N. fst (fold (sample_pair theta tape) ps (A, pos)) ! i ! j = 0 \<or>
                       fst (fold (sample_pair theta tape) ps (A, pos)) ! j ! i = 0)"
  using assms
proof (induction ps arbitrary: A pos)
  case Nil
  then show ?case by simp
next
  case (Cons p ps)
  obtain i j where p: "p = (i, j)" by (cases p)
  from Cons.prems(5) p have ij: "i < j" "j < N" "A ! i ! j = 0" "A ! j ! i = 0"
    by auto
  define orient where "orient = bernoulli (sigmoid (orientation_logit theta i j)) (tape pos)"
  define src where "src = (if orient then i else j)"
  define dst where "dst = (if orient then j else i)"
  define v :: nat where
    "v = (if bernoulli (sigmoid (existence_logit theta src dst)) (tape (Suc pos)) then 1 else 0)"
  define A' where "A' = set_entry A src dst v"
  have step: "sample_pair theta tape p (A, pos) = (A', pos + 2)"
    by (simp add: sample_pair_def p Let_def A'_def v_def src_def dst_def orient_def)
  have sd: "src < N" "dst < N" "src \<noteq> dst" "A ! src ! dst = 0" "A ! dst ! src = 0"
      "(src, dst) = (i, j) \<or> (src, dst) = (j, i)"
    using ij by (auto simp: src_def dst_def)
  have nth: "A' ! a ! b = (if a = src \<and> b = dst then v else A ! a ! b)" for a b
    unfolding A'_def using sd(1,2) Cons.prems(1,2) by (intro set_entry_nth) simp_all
  have v_le: "v \<le> 1"
    by (simp add: v_def)
  have 1: "length A' = N"
    using Cons.prems(1) by (simp add: A'_def)
  have 2: "\<forall>i<N. length (A' ! i) = N"
    using Cons.prems(2) by (simp add: A'_def)
  have 3: "\<forall>i<N. \<forall>j<N. A' ! i ! j \<le> 1"
    using Cons.prems(3) v_le by (simp add: nth)
  have 4: "\<forall>i<N. \<forall>j<N. A' ! i ! j = 0 \<or> A' ! j ! i = 0"
    using Cons.prems(4) sd by (auto simp: nth)
  have 5: "\<forall>(i, j)\<in>set ps. i < j \<and> j < N \<and> A' ! i ! j = 0 \<and> A' ! j ! i = 0"
  proof (clarify, intro conjI)
    fix a b assume ab: "(a, b) \<in> set ps"
    then have *: "a < b" "b < N" "A ! a ! b = 0" "A ! b ! a = 0"
      using Cons.prems(5) by auto
    have ne: "(a, b) \<noteq> (i, j)"
      using ab Cons.prems(6) p by auto
    show "a < b" "b < N" by (rule *)+
    show "A' ! a ! b = 0"
      using * ne sd(6) ij(1) by (auto simp: nth)
    show "A' ! b ! a = 0"
      using * ne sd(6) ij(1) by (auto simp: nth)
  qed
  have 6: "distinct ps"
    using Cons.prems(6) by simp
  show ?case
    using Cons.IH [OF 1 2 3 4 5 6, of "pos + 2"] by (simp add: step)
qed

lemma zeros_nth: "i < N \<Longrightarrow> j < N \<Longrightarrow> zeros N ! i ! j = 0"
  by (simp add: zeros_def)

lemma sample_hypothesis_invariant:
  "length (fst (sample_hypothesis N theta tape pos)) = N \<and>
   (\<forall>i<N. length (fst (sample_hypothesis N theta tape pos) ! i) = N) \<and>
   (\<forall>i<N. \<forall>j<N. fst (sample_hypothesis N theta tape pos) ! i ! j \<le> 1) \<and>
   (\<forall>i<N. \<forall>j<N. fst (sample_hypothesis N theta tape pos) ! i ! j = 0 \<or>
                 fst (sample_hypothesis N theta tape pos) ! j ! i = 0)"
  unfolding sample_hypothesis_def
  by (rule fold_sample_pair_invariant)
     (auto simp: zeros_def set_unordered_pairs distinct_unordered_pairs)

text \<open>
  C4: for every number of variables N \<ge> 2, every setting of the existence and orientation
  logits and every outcome of the random draws, the matrix A that \<open>sample_hypothesis\<close> returns
  is an N \<times> N matrix of zeros and ones in which, for every ordered pair (i, j) with i \<noteq> j,
  A[i,j] and A[j,i] are not both 1, and A[i,i] = 0.
\<close>

theorem C4_sample_hypothesis_mutually_exclusive:
  assumes "2 \<le> N" "i < N" "j < N" "A = fst (sample_hypothesis N theta tape pos)"
  shows "(i \<noteq> j \<longrightarrow> \<not> (A ! i ! j = 1 \<and> A ! j ! i = 1)) \<and> A ! i ! i = 0 \<and>
         length A = N \<and> length (A ! i) = N \<and> A ! i ! j \<in> {0, 1}"
proof -
  have inv: "length A = N \<and> (\<forall>i<N. length (A ! i) = N) \<and> (\<forall>i<N. \<forall>j<N. A ! i ! j \<le> 1) \<and>
      (\<forall>i<N. \<forall>j<N. A ! i ! j = 0 \<or> A ! j ! i = 0)"
    unfolding assms(4) by (rule sample_hypothesis_invariant)
  from inv have len: "length A = N" "length (A ! i) = N"
    using assms(2) by simp_all
  from inv have le: "\<forall>j<N. A ! i ! j \<le> 1" and ex: "\<forall>j<N. A ! i ! j = 0 \<or> A ! j ! i = 0"
    using assms(2) by simp_all
  have e: "A ! i ! j \<le> 1" "A ! i ! j = 0 \<or> A ! j ! i = 0" "A ! i ! i = 0"
    using le [rule_format, of j] ex [rule_format, of j] ex [rule_format, of i] assms(2,3)
    by simp_all
  from e(1) have "A ! i ! j = 0 \<or> A ! i ! j = 1"
    by linarith
  with e(2,3) len show ?thesis
    by auto
qed

theorem C4_sample_hypothesis_mutually_exclusive_witness:
  "fst (sample_hypothesis 2 \<lparr>existence_logit = (\<lambda>i j. 0), orientation_logit = (\<lambda>i j. 0)\<rparr>
         (\<lambda>k. 1/4) 0) = [[0, 1], [0, 0]] \<and>
   \<not> (fst (sample_hypothesis 2 \<lparr>existence_logit = (\<lambda>i j. 0), orientation_logit = (\<lambda>i j. 0)\<rparr>
         (\<lambda>k. 1/4) 0) ! 0 ! 1 = 1 \<and>
      fst (sample_hypothesis 2 \<lparr>existence_logit = (\<lambda>i j. 0), orientation_logit = (\<lambda>i j. 0)\<rparr>
         (\<lambda>k. 1/4) 0) ! 1 ! 0 = 1) \<and>
   fst (sample_hypothesis 2 \<lparr>existence_logit = (\<lambda>i j. 0), orientation_logit = (\<lambda>i j. 0)\<rparr>
         (\<lambda>k. 1/4) 0) ! 0 ! 0 = 0"
proof -
  let ?A = "fst (sample_hypothesis 2
      \<lparr>existence_logit = (\<lambda>i j. 0), orientation_logit = (\<lambda>i j. 0)\<rparr> (\<lambda>k. 1/4) 0)"
  have val: "?A = [[0, 1], [0, 0]]"
    by (simp add: sample_hypothesis_def unordered_pairs_def sample_pair_def zeros_def
        set_entry_def bernoulli_def sigmoid_def upt_rec numeral_2_eq_2)
  have "(0 \<noteq> (1::nat) \<longrightarrow> \<not> (?A ! 0 ! 1 = 1 \<and> ?A ! 1 ! 0 = 1)) \<and> ?A ! 0 ! 0 = 0 \<and>
         length ?A = 2 \<and> length (?A ! 0) = 2 \<and> ?A ! 0 ! 1 \<in> {0, 1}"
    by (rule C4_sample_hypothesis_mutually_exclusive [where N = 2 and pos = 0
          and theta = "\<lparr>existence_logit = (\<lambda>i j. 0), orientation_logit = (\<lambda>i j. 0)\<rparr>"
          and tape = "\<lambda>k. 1/4"])
       simp_all
  then show ?thesis
    using val by simp
qed

subsection \<open>Distribution fitting\<close>

lemma params_distribution_fitting_step:
  "params (distribution_fitting_step batch_size N tape sample_batch fit_step st) = params st"
  by (simp add: distribution_fitting_step_def split: prod.splits)

lemma params_phase_A:
  "params (phase_A inner_steps batch_size N tape sample_batch fit_step st) = params st"
  unfolding phase_A_def
  by (induction inner_steps) (simp_all add: params_distribution_fitting_step)

text \<open>
  C6: running Phase A twice in succession, for any numbers of inner steps and with no Phase B
  update in between, leaves the existence and orientation logits exactly as they were:
  Phase A never writes the graph parameters.
\<close>

theorem C6_phase_A_keeps_graph_parameters:
  "existence_logit (params (phase_A steps2 batch_size N tape sample_batch fit_step
       (phase_A steps1 batch_size N tape sample_batch fit_step st)))
     = existence_logit (params st) \<and>
   orientation_logit (params (phase_A steps2 batch_size N tape sample_batch fit_step
       (phase_A steps1 batch_size N tape sample_batch fit_step st)))
     = orientation_logit (params st)"
  by (simp add: params_phase_A)

subsection \<open>The data source\<close>

lemma draw_no_interventions: "draw [] v pvals u = mechanism v pvals u"
  by (simp add: draw_def)

lemma sample_variable_no_interventions:
  "sample_variable [] n noise =
     (\<lambda>v cols. cols @ [(name v,
        map (\<lambda>k. mechanism v (parent_values cols v k) (noise (name v) k)) [0..<n])])"
  by (intro ext) (simp add: sample_variable_def draw_no_interventions)

lemma sample_observational_fold:
  "fold (sample_variable [] n noise) g [] = sample_observational g n noise"
  by (simp add: sample_observational_def sample_variable_no_interventions)

text \<open>The loop over the variables only appends columns.\<close>

lemma fold_sample_variable_prefix:
  "\<exists>new. fold (sample_variable iv n noise) vs cols = cols @ new \<and> length new = length vs"
proof (induction vs arbitrary: cols)
  case Nil
  then show ?case by simp
next
  case (Cons v vs)
  obtain new where new: "fold (sample_variable iv n noise) vs (sample_variable iv n noise v cols) =
      sample_variable iv n noise v cols @ new" "length new = length vs"
    using Cons.IH by blast
  have "fold (sample_variable iv n noise) (v # vs) cols =
      cols @ ((name v, map (\<lambda>k. draw iv v (parent_values cols v k) (noise (name v) k)) [0..<n]) # new)"
    using new(1) by (simp add: sample_variable_def)
  with new(2) show ?case by (intro exI [where x = "_ # new"]) simp
qed

text \<open>Every column of the batch is drawn from the values that its parents have in the batch.\<close>

lemma fold_sample_variable_nth:
  assumes "m < length vs" "\<forall>p\<in>set (parents (vs ! m)). p < length cols + m"
  shows "fold (sample_variable iv n noise) vs cols ! (length cols + m) =
     (name (vs ! m),
      map (\<lambda>k. draw iv (vs ! m)
                 (parent_values (fold (sample_variable iv n noise) vs cols) (vs ! m) k)
                 (noise (name (vs ! m)) k)) [0..<n])"
  using assms
proof (induction vs arbitrary: cols m)
  case Nil
  then show ?case by simp
next
  case (Cons v vs)
  let ?cols' = "sample_variable iv n noise v cols"
  let ?R = "fold (sample_variable iv n noise) vs ?cols'"
  obtain new where new: "?R = ?cols' @ new"
    using fold_sample_variable_prefix by blast
  have len: "length ?cols' = Suc (length cols)"
    by (simp add: sample_variable_def)
  show ?case
  proof (cases m)
    case 0
    have pre: "?R ! p = cols ! p" if "p < length cols" for p
    proof -
      have "?R ! p = ?cols' ! p"
        using that by (simp add: new nth_append len)
      also have "\<dots> = cols ! p"
        using that by (simp add: sample_variable_def nth_append)
      finally show ?thesis .
    qed
    have "\<forall>p\<in>set (parents v). p < length cols"
      using Cons.prems(2) 0 by simp
    then have pv: "parent_values ?R v k = parent_values cols v k" for k
      by (simp add: parent_values_def pre)
    have "?R ! length cols = ?cols' ! length cols"
      by (simp add: new nth_append len)
    also have "\<dots> = (name v, map (\<lambda>k. draw iv v (parent_values cols v k) (noise (name v) k)) [0..<n])"
      by (simp add: sample_variable_def)
    finally show ?thesis
      by (simp add: 0 pv)
  next
    case (Suc m')
    have "?R ! (length ?cols' + m') =
      (name (vs ! m'),
       map (\<lambda>k. draw iv (vs ! m') (parent_values ?R (vs ! m') k) (noise (name (vs ! m')) k)) [0..<n])"
      using Cons.prems Suc by (intro Cons.IH) (simp_all add: len)
    then show ?thesis
      by (simp add: Suc len)
  qed
qed

text \<open>
  C8: for a graph whose variables are listed in ancestral order, \<open>sample\<close> called with an
  absent or an empty interventions argument returns the observational batch; called with
  interventions that all name variables of the graph it returns a batch in which every
  perfectly intervened variable has its clamped value in every example, every imperfectly
  intervened variable is drawn from its replacement distribution, and every other variable is
  drawn from its true mechanism given the values that its parents have in the same batch;
  called with an intervention on a variable that the graph does not define it returns a
  configuration error and no batch.
\<close>

theorem C8_sample_with_interventions:
  assumes ordered: "\<forall>v<length g. \<forall>p\<in>set (parents (g ! v)). p < v"
  shows "sample g n None noise = Inr (sample_observational g n noise) \<and>
         sample g n (Some []) noise = Inr (sample_observational g n noise) \<and>
         (list_all (\<lambda>x. fst x \<in> set (map name g)) iv \<longrightarrow>
            (\<exists>b. sample g n (Some iv) noise = Inr b \<and> length b = length g \<and>
               (\<forall>v<length g. fst (b ! v) = name (g ! v) \<and> length (snd (b ! v)) = n \<and>
                  (\<forall>k<n. snd (b ! v) ! k =
                     (case map_of iv (name (g ! v)) of
                        Some (Perfect c) \<Rightarrow> c
                      | Some (Imperfect q) \<Rightarrow> q (noise (name (g ! v)) k)
                      | None \<Rightarrow> mechanism (g ! v) (map (\<lambda>p. snd (b ! p) ! k) (parents (g ! v)))
                                  (noise (name (g ! v)) k)))))) \<and>
         (\<not> list_all (\<lambda>x. fst x \<in> set (map name g)) iv \<longrightarrow>
            sample g n (Some iv) noise = Inl ConfigurationError)"
proof (intro conjI impI)
  show "sample g n None noise = Inr (sample_observational g n noise)"
    by (simp add: sample_def sample_observational_fold)
  show "sample g n (Some []) noise = Inr (sample_observational g n noise)"
    by (simp add: sample_def sample_observational_fold)
  show "sample g n (Some iv) noise = Inl ConfigurationError"
    if "\<not> list_all (\<lambda>x. fst x \<in> set (map name g)) iv"
    using that by (simp add: sample_def)
  show "\<exists>b. sample g n (Some iv) noise = Inr b \<and> length b = length g \<and>
               (\<forall>v<length g. fst (b ! v) = name (g ! v) \<and> length (snd (b ! v)) = n \<and>
                  (\<forall>k<n. snd (b ! v) ! k =
                     (case map_of iv (name (g ! v)) of
                        Some (Perfect c) \<Rightarrow> c
                      | Some (Imperfect q) \<Rightarrow> q (noise (name (g ! v)) k)
                      | None \<Rightarrow> mechanism (g ! v) (map (\<lambda>p. snd (b ! p) ! k) (parents (g ! v)))
                                  (noise (name (g ! v)) k))))"
    if defined: "list_all (\<lambda>x. fst x \<in> set (map name g)) iv"
  proof -
    let ?b = "fold (sample_variable iv n noise) g []"
    have res: "sample g n (Some iv) noise = Inr ?b"
      using defined by (simp add: sample_def)
    have len: "length ?b = length g"
      using fold_sample_variable_prefix [of iv n noise g "[]"] by auto
    have col: "?b ! v = (name (g ! v),
        map (\<lambda>k. draw iv (g ! v) (parent_values ?b (g ! v) k) (noise (name (g ! v)) k)) [0..<n])"
      if "v < length g" for v
      using fold_sample_variable_nth [of v g "[]" iv n noise] that ordered by simp
    have "fst (?b ! v) = name (g ! v) \<and> length (snd (?b ! v)) = n \<and>
                  (\<forall>k<n. snd (?b ! v) ! k =
                     (case map_of iv (name (g ! v)) of
                        Some (Perfect c) \<Rightarrow> c
                      | Some (Imperfect q) \<Rightarrow> q (noise (name (g ! v)) k)
                      | None \<Rightarrow> mechanism (g ! v) (map (\<lambda>p. snd (?b ! p) ! k) (parents (g ! v)))
                                  (noise (name (g ! v)) k)))"
      if "v < length g" for v
      by (simp add: col [OF that] draw_def parent_values_def
          split: option.splits intervention.splits)
    with res len show ?thesis
      by blast
  qed
qed

theorem C8_sample_with_interventions_witness:
  "sample [\<lparr>name = ''D'', parents = [], mechanism = (\<lambda>pvals u. 8)\<rparr>,
           \<lparr>name = ''E'', parents = [0], mechanism = (\<lambda>pvals u. hd pvals + 1)\<rparr>]
      1 None (\<lambda>x k. 0) = Inr [(''D'', [8]), (''E'', [9])] \<and>
   (\<exists>b. sample [\<lparr>name = ''D'', parents = [], mechanism = (\<lambda>pvals u. 8)\<rparr>,
                \<lparr>name = ''E'', parents = [0], mechanism = (\<lambda>pvals u. hd pvals + 1)\<rparr>]
           1 (Some [(''E'', Perfect 0)]) (\<lambda>x k. 0) = Inr b \<and>
        snd (b ! 0) ! 0 = 8 \<and> snd (b ! 1) ! 0 = 0) \<and>
   sample [\<lparr>name = ''D'', parents = [], mechanism = (\<lambda>pvals u. 8)\<rparr>,
           \<lparr>name = ''E'', parents = [0], mechanism = (\<lambda>pvals u. hd pvals + 1)\<rparr>]
      1 (Some [(''Z'', Perfect 0)]) (\<lambda>x k. 0) = Inl ConfigurationError"
proof -
  let ?g = "[\<lparr>name = ''D'', parents = [], mechanism = (\<lambda>pvals u. 8)\<rparr>,
             \<lparr>name = ''E'', parents = [0], mechanism = (\<lambda>pvals (u::real). hd pvals + 1)\<rparr>]"
  have ordered: "\<forall>v<length ?g. \<forall>p\<in>set (parents (?g ! v)). p < v"
    by (simp add: less_Suc_eq)
  have obs: "sample_observational ?g 1 (\<lambda>x k. 0) = [(''D'', [8]), (''E'', [9])]"
    by (simp add: sample_observational_def parent_values_def)
  note E = C8_sample_with_interventions [OF ordered, of 1 "\<lambda>x k. 0" "[(''E'', Perfect 0)]"]
  note Z = C8_sample_with_interventions [OF ordered, of 1 "\<lambda>x k. 0" "[(''Z'', Perfect 0)]"]
  have 1: "sample ?g 1 None (\<lambda>x k. 0) = Inr [(''D'', [8]), (''E'', [9])]"
    using E obs by simp
  have 2: "\<exists>b. sample ?g 1 (Some [(''E'', Perfect 0)]) (\<lambda>x k. 0) = Inr b \<and>
        snd (b ! 0) ! 0 = 8 \<and> snd (b ! 1) ! 0 = 0"
  proof -
    obtain b where b: "sample ?g 1 (Some [(''E'', Perfect 0)]) (\<lambda>x k. 0) = Inr b"
        "\<forall>v<length ?g. fst (b ! v) = name (?g ! v) \<and> length (snd (b ! v)) = 1 \<and>
           (\<forall>k<1. snd (b ! v) ! k =
              (case map_of [(''E'', Perfect 0)] (name (?g ! v)) of
                 Some (Perfect c) \<Rightarrow> c
               | Some (Imperfect q) \<Rightarrow> q 0
               | None \<Rightarrow> mechanism (?g ! v) (map (\<lambda>p. snd (b ! p) ! k) (parents (?g ! v))) 0))"
      using E by auto
    have "snd (b ! 0) ! 0 = 8" "snd (b ! 1) ! 0 = 0"
      using b(2) [rule_format, of 0] b(2) [rule_format, of 1] by simp_all
    with b(1) show ?thesis by blast
  qed
  have 3: "sample ?g 1 (Some [(''Z'', Perfect 0)]) (\<lambda>x k. 0) = Inl ConfigurationError"
    using Z by simp
  from 1 2 3 show ?thesis by blast
qed

end
